theory Spec2Isabelle
  imports Complex_Main "HOL-Library.Char_ord" "HOL-Library.List_Lexorder"
begin

section \<open>Values\<close>

text \<open>
  Python floats (and SQLite REAL columns) are modelled by rationals: finite values with
  exact arithmetic. Division keeps Python's failure on a zero divisor, and
  \<open>round(x, n)\<close> is rounding of the exact value to \<open>n\<close> decimals, ties to even.
\<close>

datatype py_error =
  AttributeError | TypeError | ValueError | ZeroDivisionError
  | InterfaceError | IntegrityError | OutsideModel

definition py_div :: "rat \<Rightarrow> rat \<Rightarrow> py_error + rat" where
  "py_div a b = (if b = 0 then Inl ZeroDivisionError else Inr (a / b))"

definition round_half_even :: "rat \<Rightarrow> int" where
  "round_half_even x =
     (let f = \<lfloor>x\<rfloor>; d = x - of_int f
      in if d < 1 / 2 then f else if 1 / 2 < d then f + 1 else if even f then f else f + 1)"

definition py_round :: "rat \<Rightarrow> nat \<Rightarrow> rat" where
  "py_round x ndigits = of_int (round_half_even (x * 10 ^ ndigits)) / 10 ^ ndigits"












subsection \<open>Strings\<close>

text \<open>
  \<open>str.strip()\<close> and \<open>str.upper()\<close> on ASCII text: the whitespace characters are
  the ASCII ones Python strips (tab, line feed, vertical tab, form feed, carriage return,
  the separators 28 to 31 and the space), and the letters a to z are raised.
\<close>

definition py_isspace :: "char \<Rightarrow> bool" where
  "py_isspace c = (let n = (of_char c :: nat) in (9 \<le> n \<and> n \<le> 13) \<or> (28 \<le> n \<and> n \<le> 32))"

definition py_strip :: "string \<Rightarrow> string" where
  "py_strip s = rev (dropWhile py_isspace (rev (dropWhile py_isspace s)))"




section \<open>The store\<close>

text \<open>
  The three tables of \<open>init_db\<close>, rows in rowid order, each column with its declared
  type; a nullable column is an option. The \<open>created_at\<close> columns are left out: no handler
  reads them. AUTOINCREMENT keeps, per table, the largest id ever assigned.
\<close>

record car =
  c_id :: nat
  c_registration :: string
  c_description :: string

record fuel_log =
  fl_id :: nat
  fl_car_id :: int
  fl_logged_at :: string
  fl_fuel_amount :: rat
  fl_fuel_unit :: string
  fl_price_per_unit :: rat
  fl_total_cost :: rat
  fl_odometer :: "rat option"
  fl_notes :: "string option"

record service_log =
  sl_id :: nat
  sl_car_id :: int
  sl_category :: string
  sl_logged_at :: string
  sl_cost :: rat
  sl_provider :: "string option"
  sl_notes :: "string option"
  sl_next_due_date :: "string option"
  sl_next_due_km :: "rat option"
  sl_odometer :: "rat option"

record db =
  cars :: "car list"
  fuel_logs :: "fuel_log list"
  service_logs :: "service_log list"
  cars_seq :: nat
  fuel_logs_seq :: nat
  service_logs_seq :: nat



section \<open>Fuel logs\<close>

text \<open>
  A row of the listing is the dictionary \<open>dict(r)\<close> of the joined row: the columns of the
  fuel log, the vehicle's registration and description, and the four trip keys the
  handler may add. A key of a dictionary is absent, or holds \<open>None\<close>, or a number.
\<close>

datatype field = Absent | Null | Num rat

record log = fuel_log +
  registration :: string
  car_description :: string
  distance_km :: field
  consumption_per100 :: field
  rand_per_km :: field
  rand_per_litre_trip :: field

definition join_row :: "fuel_log \<Rightarrow> car \<Rightarrow> log" where
  "join_row fl c =
     \<lparr>fl_id = fl_id fl, fl_car_id = fl_car_id fl, fl_logged_at = fl_logged_at fl,
      fl_fuel_amount = fl_fuel_amount fl, fl_fuel_unit = fl_fuel_unit fl,
      fl_price_per_unit = fl_price_per_unit fl, fl_total_cost = fl_total_cost fl,
      fl_odometer = fl_odometer fl, fl_notes = fl_notes fl,
      registration = c_registration c, car_description = c_description c,
      distance_km = Absent, consumption_per100 = Absent,
      rand_per_km = Absent, rand_per_litre_trip = Absent\<rparr>"

text \<open>
  The query parameter \<open>car_id\<close> is the integer SQLite compares the column with;
  \<open>None\<close> when the parameter is missing or empty, where the query has no WHERE clause.
  ORDER BY is a stable sort of the rows in table order.
\<close>

definition in_scope :: "int option \<Rightarrow> int \<Rightarrow> bool" where
  "in_scope car_id k = (case car_id of None \<Rightarrow> True | Some q \<Rightarrow> k = q)"

definition select_logs :: "db \<Rightarrow> int option \<Rightarrow> log list" where
  "select_logs s car_id =
     sort_key fl_logged_at
       (concat (map (\<lambda>fl. map (join_row fl) (filter (\<lambda>c. fl_car_id fl = int (c_id c)) (cars s)))
                    (filter (\<lambda>fl. in_scope car_id (fl_car_id fl)) (fuel_logs s))))"

text \<open>
  The dictionaries of \<open>logs\<close> are shared by the lists \<open>by_car[k]\<close> and \<open>with_odo\<close>, and the
  loop writes to them through \<open>with_odo\<close>. So the dictionaries live in a heap, addressed by
  their position in \<open>logs\<close>, and the other lists hold addresses.
\<close>

type_synonym heap = "log list"

text \<open>\<open>by_car[k].append(a)\<close> on a defaultdict(list), which keeps its keys in insertion order.\<close>

fun dd_append :: "int \<Rightarrow> nat \<Rightarrow> (int \<times> nat list) list \<Rightarrow> (int \<times> nat list) list" where
  "dd_append k a [] = [(k, [a])]"
| "dd_append k a ((k', addrs) # kvs) =
     (if k = k' then (k', addrs @ [a]) # kvs else (k', addrs) # dd_append k a kvs)"

definition group_by_car :: "heap \<Rightarrow> (int \<times> nat list) list" where
  "group_by_car h = fold (\<lambda>a by_car. dd_append (fl_car_id (h ! a)) a by_car) [0..<length h] []"

definition no_trip :: "log \<Rightarrow> log" where
  "no_trip l = l\<lparr>distance_km := Null, consumption_per100 := Null,
                 rand_per_km := Null, rand_per_litre_trip := Null\<rparr>"

text \<open>One round of the loop over \<open>enumerate(with_odo)\<close>, at index \<open>i\<close> and dictionary \<open>a\<close>.\<close>

definition trip_step :: "nat list \<Rightarrow> nat \<Rightarrow> nat \<Rightarrow> heap \<Rightarrow> py_error + heap" where
  "trip_step with_odo i a h =
     (if i = 0 then Inr (h[a := no_trip (h ! a)])
      else
        (let l = h ! a; prev = h ! (with_odo ! (i - 1)) in
         case (fl_odometer l, fl_odometer prev) of
           (Some odo, Some prev_odo) \<Rightarrow>
             (let delta = odo - prev_odo in
              if 0 < delta then
                (case py_div (fl_fuel_amount l) delta of
                   Inl e \<Rightarrow> Inl e
                 | Inr per_km \<Rightarrow>
                     (case py_div (fl_total_cost l) delta of
                        Inl e \<Rightarrow> Inl e
                      | Inr cost_km \<Rightarrow>
                          Inr (h[a := l\<lparr>distance_km := Num (py_round delta 1),
                                         consumption_per100 := Num (py_round (per_km * 100) 2),
                                         rand_per_km := Num (py_round cost_km 4),
                                         rand_per_litre_trip := Num (py_round (fl_price_per_unit l) 4)\<rparr>])))
              else Inr (h[a := no_trip l]))
         | _ \<Rightarrow> Inl TypeError))"

fun trip_loop :: "nat list \<Rightarrow> (nat \<times> nat) list \<Rightarrow> heap \<Rightarrow> py_error + heap" where
  "trip_loop with_odo [] h = Inr h"
| "trip_loop with_odo ((i, a) # rest) h =
     (case trip_step with_odo i a h of
        Inl e \<Rightarrow> Inl e
      | Inr h' \<Rightarrow> trip_loop with_odo rest h')"

definition car_trips :: "nat list \<Rightarrow> heap \<Rightarrow> py_error + heap" where
  "car_trips car_logs h =
     (let with_odo = sort_key (\<lambda>a. fl_logged_at (h ! a))
                       (filter (\<lambda>a. fl_odometer (h ! a) \<noteq> None) car_logs)
      in trip_loop with_odo (enumerate 0 with_odo) h)"

fun all_trips :: "nat list list \<Rightarrow> heap \<Rightarrow> py_error + heap" where
  "all_trips [] h = Inr h"
| "all_trips (car_logs # rest) h =
     (case car_trips car_logs h of
        Inl e \<Rightarrow> Inl e
      | Inr h' \<Rightarrow> all_trips rest h')"

text \<open>
  \<open>list.sort(key=f, reverse=True)\<close>: descending, and entries with equal keys keep their
  order.
\<close>

definition sort_reverse :: "('a \<Rightarrow> 'k::linorder) \<Rightarrow> 'a list \<Rightarrow> 'a list" where
  "sort_reverse f xs = rev (sort_key f (rev xs))"

text \<open>The part of \<open>get_logs\<close> after the query, on the rows fetched.\<close>

definition trip_metrics :: "log list \<Rightarrow> py_error + log list" where
  "trip_metrics rows =
     (case all_trips (map snd (group_by_car rows)) rows of
        Inl e \<Rightarrow> Inl e
      | Inr h \<Rightarrow> Inr (sort_reverse fl_logged_at h))"

section \<open>Statistics\<close>

record stats =
  total_entries :: nat
  total_fuel :: rat
  total_spent :: rat
  avg_price_per_unit :: rat
  first_odo :: "rat option"
  last_odo :: "rat option"
  total_distance_km :: "rat option"
  avg_consumption_per100 :: "rat option"
  overall_rand_per_km :: "rat option"
  overall_rand_per_litre :: "rat option"
  service_breakdown :: "(string \<times> rat \<times> nat) list"
  total_service_cost :: rat

text \<open>The SQL aggregates: MIN and MAX skip NULL and are NULL when nothing is left.\<close>

definition sql_min :: "rat option list \<Rightarrow> rat option" where
  "sql_min xs = (case List.map_filter id xs of [] \<Rightarrow> None | v # vs \<Rightarrow> Some (fold min vs v))"

definition sql_max :: "rat option list \<Rightarrow> rat option" where
  "sql_max xs = (case List.map_filter id xs of [] \<Rightarrow> None | v # vs \<Rightarrow> Some (fold max vs v))"

definition sql_avg :: "rat list \<Rightarrow> rat" where
  "sql_avg xs = (if xs = [] then 0 else sum_list xs / of_nat (length xs))"

definition breakdown :: "service_log list \<Rightarrow> (string \<times> rat \<times> nat) list" where
  "breakdown svcs =
     map (\<lambda>cat. (cat, sum_list (map sl_cost (filter (\<lambda>r. sl_category r = cat) svcs)),
                 length (filter (\<lambda>r. sl_category r = cat) svcs)))
         (sort (remdups (map sl_category svcs)))"

definition get_stats_body :: "db \<Rightarrow> int option \<Rightarrow> py_error + stats" where
  "get_stats_body s car_id =
     (let fls = filter (\<lambda>fl. in_scope car_id (fl_car_id fl)) (fuel_logs s);
          fuel = sum_list (map fl_fuel_amount fls);
          spent = sum_list (map fl_total_cost fls);
          lo = sql_min (map fl_odometer fls);
          hi = sql_max (map fl_odometer fls);
          svc = breakdown (filter (\<lambda>r. in_scope car_id (sl_car_id r)) (service_logs s))
      in
        case (case (lo, hi) of
                (Some lo_odo, Some hi_odo) \<Rightarrow>
                  if lo_odo < hi_odo then
                    (let delta = hi_odo - lo_odo in
                     case py_div fuel delta of
                       Inl e \<Rightarrow> Inl e
                     | Inr per_km \<Rightarrow>
                         (case py_div spent delta of
                            Inl e \<Rightarrow> Inl e
                          | Inr cost_km \<Rightarrow>
                              Inr (Some (py_round delta 1), Some (py_round (per_km * 100) 2),
                                   Some (py_round cost_km 4))))
                  else Inr (None, None, None)
              | _ \<Rightarrow> Inr (None, None, None)) of
          Inl e \<Rightarrow> Inl e
        | Inr (dist_km, consumption, per_km) \<Rightarrow>
            (case (if 0 < fuel
                   then (case py_div spent fuel of Inl e \<Rightarrow> Inl e | Inr q \<Rightarrow> Inr (Some (py_round q 4)))
                   else Inr None) of
               Inl e \<Rightarrow> Inl e
             | Inr per_litre \<Rightarrow>
                 Inr \<lparr>total_entries = length fls, total_fuel = fuel, total_spent = spent,
                      avg_price_per_unit = sql_avg (map fl_price_per_unit fls),
                      first_odo = lo, last_odo = hi,
                      total_distance_km = dist_km, avg_consumption_per100 = consumption,
                      overall_rand_per_km = per_km, overall_rand_per_litre = per_litre,
                      service_breakdown = svc,
                      total_service_cost = sum_list (map (\<lambda>(c, t, n). t) svc)\<rparr>))"

section \<open>Service logs\<close>


record service_row = service_log +
  s_registration :: string
  s_car_description :: string

definition join_service :: "service_log \<Rightarrow> car \<Rightarrow> service_row" where
  "join_service sl c =
     \<lparr>sl_id = sl_id sl, sl_car_id = sl_car_id sl, sl_category = sl_category sl,
      sl_logged_at = sl_logged_at sl, sl_cost = sl_cost sl, sl_provider = sl_provider sl,
      sl_notes = sl_notes sl, sl_next_due_date = sl_next_due_date sl,
      sl_next_due_km = sl_next_due_km sl, sl_odometer = sl_odometer sl,
      s_registration = c_registration c, s_car_description = c_description c\<rparr>"

text \<open>
  The \<open>category\<close> parameter filters when it is present and not empty. ORDER BY ... DESC
  is the stable ascending sort, reversed.
\<close>

definition select_services :: "db \<Rightarrow> int option \<Rightarrow> string option \<Rightarrow> service_row list" where
  "select_services s car_id category =
     rev (sort_key sl_logged_at
       (concat (map (\<lambda>sl. map (join_service sl) (filter (\<lambda>c. sl_car_id sl = int (c_id c)) (cars s)))
                    (filter (\<lambda>sl. in_scope car_id (sl_car_id sl) \<and>
                                  (case category of None \<Rightarrow> True
                                   | Some cat \<Rightarrow> cat = [] \<or> sl_category sl = cat))
                            (service_logs s)))))"


section \<open>Responses\<close>

datatype body =
    ErrorMsg string
  | CarCreated nat string
  | LogCreated nat rat
  | ServiceCreated nat
  | Deleted nat
  | Cars "car list"
  | Logs "log list"
  | Stats stats
  | Services "service_row list"

text \<open>
  A handler returns the store it leaves and the status and body of its response, or
  \<open>Inl e\<close> when the exception \<open>e\<close> leaves it unhandled (nothing is committed then).
\<close>

type_synonym outcome = "py_error + (db \<times> nat \<times> body)"


section \<open>Handlers\<close>

subsection \<open>Vehicles\<close>



definition delete_car :: "db \<Rightarrow> nat \<Rightarrow> outcome" where
  "delete_car s car_id =
     Inr (s\<lparr>cars := filter (\<lambda>c. c_id c \<noteq> car_id) (cars s)\<rparr>, 200, Deleted car_id)"

subsection \<open>Fuel logs\<close>

definition get_logs :: "db \<Rightarrow> int option \<Rightarrow> outcome" where
  "get_logs s car_id =
     (case trip_metrics (select_logs s car_id) of
        Inl e \<Rightarrow> Inl e
      | Inr ls \<Rightarrow> Inr (s, 200, Logs ls))"



subsection \<open>Statistics\<close>

definition get_stats :: "db \<Rightarrow> int option \<Rightarrow> outcome" where
  "get_stats s car_id =
     (case get_stats_body s car_id of
        Inl e \<Rightarrow> Inl e
      | Inr st \<Rightarrow> Inr (s, 200, Stats st))"

subsection \<open>Service logs\<close>

definition get_services :: "db \<Rightarrow> int option \<Rightarrow> string option \<Rightarrow> outcome" where
  "get_services s car_id category = Inr (s, 200, Services (select_services s car_id category))"



subsection \<open>The routes\<close>






section \<open>The trips of one vehicle, as a function of its rows\<close>

text \<open>
  What the loop of \<open>get_logs\<close> writes, read off \<open>trip_step\<close>: the entry written for a row
  whose predecessor in \<open>with_odo\<close> has the odometer reading \<open>prev\<close> (\<open>None\<close>: the row is the
  first), and the entries written along a whole \<open>with_odo\<close> list. The lemmas below prove
  that the loop over the shared dictionaries computes exactly these.
\<close>

definition trip_entry :: "rat option \<Rightarrow> log \<Rightarrow> log" where
  "trip_entry prev l =
     (case (prev, fl_odometer l) of
        (Some prev_odo, Some odo) \<Rightarrow>
          if 0 < odo - prev_odo
          then l\<lparr>distance_km := Num (py_round (odo - prev_odo) 1),
                 consumption_per100 := Num (py_round (fl_fuel_amount l / (odo - prev_odo) * 100) 2),
                 rand_per_km := Num (py_round (fl_total_cost l / (odo - prev_odo)) 4),
                 rand_per_litre_trip := Num (py_round (fl_price_per_unit l) 4)\<rparr>
          else no_trip l
      | _ \<Rightarrow> no_trip l)"

fun annotate :: "rat option \<Rightarrow> log list \<Rightarrow> log list" where
  "annotate prev [] = []"
| "annotate prev (l # ls) = trip_entry prev l # annotate (fl_odometer l) ls"

definition with_odo_of :: "heap \<Rightarrow> nat list \<Rightarrow> nat list" where
  "with_odo_of h car_logs =
     sort_key (\<lambda>a. fl_logged_at (h ! a)) (filter (\<lambda>a. fl_odometer (h ! a) \<noteq> None) car_logs)"

text \<open>The list \<open>with_odo\<close> of one vehicle, on rows instead of addresses.\<close>

definition car_with_odo :: "int \<Rightarrow> ('a fuel_log_scheme) list \<Rightarrow> ('a fuel_log_scheme) list" where
  "car_with_odo k rows =
     sort_key fl_logged_at (filter (\<lambda>l. fl_odometer l \<noteq> None) (filter (\<lambda>l. fl_car_id l = k) rows))"

text \<open>
  The listing as a function of the fetched rows: the odometer of the predecessor of the
  row with id \<open>x\<close> in a \<open>with_odo\<close> list, and the entry listed for a row.
\<close>

fun prev_in :: "rat option \<Rightarrow> nat \<Rightarrow> log list \<Rightarrow> rat option" where
  "prev_in p x [] = None"
| "prev_in p x (l # ls) = (if fl_id l = x then p else prev_in (fl_odometer l) x ls)"

definition listed :: "log list \<Rightarrow> log \<Rightarrow> log" where
  "listed rows r =
     (if fl_odometer r = None then r
      else trip_entry (prev_in None (fl_id r) (car_with_odo (fl_car_id r) rows)) r)"

section \<open>Example stores and requests\<close>











text \<open>A store with two vehicles, five fuel logs and two service entries.\<close>

definition example_store :: db where
  "example_store =
     \<lparr>cars = [\<lparr>c_id = 1, c_registration = ''CA 1'', c_description = ''Hatchback''\<rparr>,
              \<lparr>c_id = 2, c_registration = ''CA 2'', c_description = ''Van''\<rparr>],
      fuel_logs =
        [\<lparr>fl_id = 1, fl_car_id = 1, fl_logged_at = ''2024-01-01'', fl_fuel_amount = 40,
          fl_fuel_unit = ''litres'', fl_price_per_unit = 20, fl_total_cost = 800,
          fl_odometer = Some 1000, fl_notes = None\<rparr>,
         \<lparr>fl_id = 2, fl_car_id = 1, fl_logged_at = ''2024-01-05'', fl_fuel_amount = 30,
          fl_fuel_unit = ''litres'', fl_price_per_unit = 20, fl_total_cost = 600,
          fl_odometer = None, fl_notes = None\<rparr>,
         \<lparr>fl_id = 3, fl_car_id = 1, fl_logged_at = ''2024-01-09'', fl_fuel_amount = 30,
          fl_fuel_unit = ''litres'', fl_price_per_unit = 20, fl_total_cost = 600,
          fl_odometer = Some 1200, fl_notes = None\<rparr>,
         \<lparr>fl_id = 4, fl_car_id = 1, fl_logged_at = ''2024-01-12'', fl_fuel_amount = 10,
          fl_fuel_unit = ''litres'', fl_price_per_unit = 20, fl_total_cost = 200,
          fl_odometer = Some 1100, fl_notes = None\<rparr>,
         \<lparr>fl_id = 5, fl_car_id = 2, fl_logged_at = ''2024-01-03'', fl_fuel_amount = 50,
          fl_fuel_unit = ''litres'', fl_price_per_unit = 20, fl_total_cost = 1000,
          fl_odometer = Some 5000, fl_notes = None\<rparr>],
      service_logs =
        [\<lparr>sl_id = 1, sl_car_id = 1, sl_category = ''tyres'', sl_logged_at = ''2024-02-01'',
          sl_cost = 1500, sl_provider = None, sl_notes = None, sl_next_due_date = None,
          sl_next_due_km = None, sl_odometer = None\<rparr>,
         \<lparr>sl_id = 2, sl_car_id = 2, sl_category = ''car_wash'', sl_logged_at = ''2024-02-02'',
          sl_cost = 100, sl_provider = None, sl_notes = None, sl_next_due_date = None,
          sl_next_due_km = None, sl_odometer = None\<rparr>],
      cars_seq = 2, fuel_logs_seq = 5, service_logs_seq = 2\<rparr>"

section \<open>Strings\<close>

lemma py_strip_decomp:
  "\<exists>pre post. s = pre @ py_strip s @ post \<and> list_all py_isspace pre \<and> list_all py_isspace post"
proof -
  define t where "t = dropWhile py_isspace s"
  have s: "s = takeWhile py_isspace s @ t"
    by (simp add: t_def)
  have "t = rev (takeWhile py_isspace (rev t) @ dropWhile py_isspace (rev t))"
    by (simp only: takeWhile_dropWhile_id rev_rev_ident)
  also have "\<dots> = rev (dropWhile py_isspace (rev t)) @ rev (takeWhile py_isspace (rev t))"
    by (rule rev_append)
  finally have t: "t = py_strip s @ rev (takeWhile py_isspace (rev t))"
    by (simp only: py_strip_def t_def)
  have a: "list_all py_isspace (takeWhile py_isspace s)"
    by (auto simp: list_all_iff dest: set_takeWhileD)
  have b: "list_all py_isspace (rev (takeWhile py_isspace (rev t)))"
    by (auto simp: list_all_iff dest: set_takeWhileD)
  from s t have "s = takeWhile py_isspace s @ py_strip s @ rev (takeWhile py_isspace (rev t))"
    by simp
  with a b show ?thesis by blast
qed

lemma py_strip_ends:
  assumes "py_strip s \<noteq> []"
  shows "\<not> py_isspace (hd (py_strip s)) \<and> \<not> py_isspace (last (py_strip s))"
proof -
  define t where "t = dropWhile py_isspace s"
  define u where "u = dropWhile py_isspace (rev t)"
  have ps: "py_strip s = rev u" by (simp add: py_strip_def t_def u_def)
  with assms have u: "u \<noteq> []" by simp
  then have "\<not> py_isspace (hd u)" unfolding u_def by (rule hd_dropWhile)
  then have l: "\<not> py_isspace (last (py_strip s))" using u by (simp add: ps last_rev)
  have "t = rev (takeWhile py_isspace (rev t) @ dropWhile py_isspace (rev t))"
    by (simp only: takeWhile_dropWhile_id rev_rev_ident)
  also have "\<dots> = rev u @ rev (takeWhile py_isspace (rev t))"
    unfolding u_def by (rule rev_append)
  finally have t: "t = py_strip s @ rev (takeWhile py_isspace (rev t))"
    by (simp only: ps)
  have tn: "t \<noteq> []" using t assms by auto
  have "hd t = hd (py_strip s)" using assms by (subst t) simp
  moreover from tn have "\<not> py_isspace (hd t)" unfolding t_def by (rule hd_dropWhile)
  ultimately show ?thesis using l by simp
qed

section \<open>Vehicles\<close>








section \<open>What the handlers change\<close>










section \<open>Writing a fuel log\<close>



section \<open>Writing a service entry\<close>










section \<open>Statistics\<close>




lemma get_stats_body_eq:
  "get_stats_body s q =
     Inr \<lparr>total_entries = length (filter (\<lambda>fl. in_scope q (fl_car_id fl)) (fuel_logs s)),
          total_fuel = sum_list (map fl_fuel_amount (filter (\<lambda>fl. in_scope q (fl_car_id fl)) (fuel_logs s))),
          total_spent = sum_list (map fl_total_cost (filter (\<lambda>fl. in_scope q (fl_car_id fl)) (fuel_logs s))),
          avg_price_per_unit = sql_avg (map fl_price_per_unit (filter (\<lambda>fl. in_scope q (fl_car_id fl)) (fuel_logs s))),
          first_odo = sql_min (map fl_odometer (filter (\<lambda>fl. in_scope q (fl_car_id fl)) (fuel_logs s))),
          last_odo = sql_max (map fl_odometer (filter (\<lambda>fl. in_scope q (fl_car_id fl)) (fuel_logs s))),
          total_distance_km =
            (case (sql_min (map fl_odometer (filter (\<lambda>fl. in_scope q (fl_car_id fl)) (fuel_logs s))),
                   sql_max (map fl_odometer (filter (\<lambda>fl. in_scope q (fl_car_id fl)) (fuel_logs s)))) of
               (Some lo, Some hi) \<Rightarrow> if lo < hi then Some (py_round (hi - lo) 1) else None
             | _ \<Rightarrow> None),
          avg_consumption_per100 =
            (case (sql_min (map fl_odometer (filter (\<lambda>fl. in_scope q (fl_car_id fl)) (fuel_logs s))),
                   sql_max (map fl_odometer (filter (\<lambda>fl. in_scope q (fl_car_id fl)) (fuel_logs s)))) of
               (Some lo, Some hi) \<Rightarrow>
                 if lo < hi
                 then Some (py_round (sum_list (map fl_fuel_amount (filter (\<lambda>fl. in_scope q (fl_car_id fl)) (fuel_logs s))) / (hi - lo) * 100) 2)
                 else None
             | _ \<Rightarrow> None),
          overall_rand_per_km =
            (case (sql_min (map fl_odometer (filter (\<lambda>fl. in_scope q (fl_car_id fl)) (fuel_logs s))),
                   sql_max (map fl_odometer (filter (\<lambda>fl. in_scope q (fl_car_id fl)) (fuel_logs s)))) of
               (Some lo, Some hi) \<Rightarrow>
                 if lo < hi
                 then Some (py_round (sum_list (map fl_total_cost (filter (\<lambda>fl. in_scope q (fl_car_id fl)) (fuel_logs s))) / (hi - lo)) 4)
                 else None
             | _ \<Rightarrow> None),
          overall_rand_per_litre =
            (if 0 < sum_list (map fl_fuel_amount (filter (\<lambda>fl. in_scope q (fl_car_id fl)) (fuel_logs s)))
             then Some (py_round (sum_list (map fl_total_cost (filter (\<lambda>fl. in_scope q (fl_car_id fl)) (fuel_logs s)))
                                  / sum_list (map fl_fuel_amount (filter (\<lambda>fl. in_scope q (fl_car_id fl)) (fuel_logs s)))) 4)
             else None),
          service_breakdown = breakdown (filter (\<lambda>r. in_scope q (sl_car_id r)) (service_logs s)),
          total_service_cost =
            sum_list (map (\<lambda>(c, t, n). t) (breakdown (filter (\<lambda>r. in_scope q (sl_car_id r)) (service_logs s))))\<rparr>"
  unfolding get_stats_body_def Let_def py_div_def
  by (simp split: option.splits)



section \<open>The trip loop\<close>

lemma trip_entry_odometer [simp]: "fl_odometer (trip_entry p l) = fl_odometer l"
  by (simp add: trip_entry_def no_trip_def split: option.splits)

lemma trip_entry_fields [simp]:
  "fl_id (trip_entry p l) = fl_id l" "fl_car_id (trip_entry p l) = fl_car_id l"
  "fl_logged_at (trip_entry p l) = fl_logged_at l"
  by (simp_all add: trip_entry_def no_trip_def split: option.splits)

lemma trip_step_entry:
  assumes "fl_odometer (h ! a) \<noteq> None"
    and "0 < i \<Longrightarrow> fl_odometer (h ! (with_odo ! (i - 1))) \<noteq> None"
  shows "trip_step with_odo i a h =
           Inr (h[a := trip_entry (if i = 0 then None else fl_odometer (h ! (with_odo ! (i - 1)))) (h ! a)])"
proof (cases "i = 0")
  case True
  then show ?thesis by (simp add: trip_step_def trip_entry_def)
next
  case False
  with assms show ?thesis
    by (auto simp: trip_step_def trip_entry_def py_div_def Let_def split: option.splits)
qed

lemma trip_loop_annotate:
  assumes "with_odo = pre @ sfx" "distinct with_odo"
    and "\<forall>a \<in> set with_odo. a < length h \<and> fl_odometer (h ! a) \<noteq> None"
  shows "\<exists>h'. trip_loop with_odo (enumerate (length pre) sfx) h = Inr h' \<and>
              length h' = length h \<and>
              (\<forall>a. a \<notin> set sfx \<longrightarrow> h' ! a = h ! a) \<and>
              map ((!) h') sfx =
                annotate (if pre = [] then None else fl_odometer (h ! last pre)) (map ((!) h) sfx)"
  using assms
proof (induction sfx arbitrary: pre h)
  case Nil
  then show ?case by simp
next
  case (Cons a rest)
  let ?i = "length pre"
  let ?p = "if pre = [] then None else fl_odometer (h ! last pre)"
  have wo: "with_odo = (pre @ [a]) @ rest" using Cons.prems(1) by simp
  have a: "a < length h" "fl_odometer (h ! a) \<noteq> None" "a \<notin> set rest" "a \<notin> set pre"
    using Cons.prems by auto
  have prev: "0 < ?i \<Longrightarrow> with_odo ! (?i - 1) = last pre"
    using Cons.prems(1) by (simp add: nth_append last_conv_nth)
  have prev_odo: "0 < ?i \<Longrightarrow> fl_odometer (h ! (with_odo ! (?i - 1))) \<noteq> None"
    using prev Cons.prems(1,3) by (cases pre rule: rev_cases) auto
  define h1 where "h1 = h[a := trip_entry ?p (h ! a)]"
  have step: "trip_step with_odo ?i a h = Inr h1"
    using trip_step_entry [of h a ?i with_odo, OF a(2) prev_odo] prev
    by (auto simp: h1_def)
  have h1: "\<forall>b \<in> set with_odo. b < length h1 \<and> fl_odometer (h1 ! b) \<noteq> None"
    using Cons.prems(3) a(1) by (auto simp: h1_def nth_list_update simp del: not_None_eq)
  from Cons.IH [OF wo Cons.prems(2) h1]
  obtain h' where h': "trip_loop with_odo (enumerate (length (pre @ [a])) rest) h1 = Inr h'"
    "length h' = length h1" "\<forall>b. b \<notin> set rest \<longrightarrow> h' ! b = h1 ! b"
    "map ((!) h') rest = annotate (fl_odometer (h1 ! last (pre @ [a]))) (map ((!) h1) rest)"
    by auto
  have "\<forall>b \<in> set rest. a \<noteq> b" using a(3) by auto
  then have rest: "map ((!) h1) rest = map ((!) h) rest"
    by (simp add: h1_def)
  have h1a: "h1 ! a = trip_entry ?p (h ! a)"
    using a(1) by (simp add: h1_def)
  have "trip_loop with_odo (enumerate ?i (a # rest)) h = Inr h'"
    using step h'(1) by simp
  moreover have "length h' = length h" using h'(2) by (simp add: h1_def)
  moreover have "\<forall>b. b \<notin> set (a # rest) \<longrightarrow> h' ! b = h ! b"
    using h'(3) by (auto simp: h1_def nth_list_update)
  moreover have "map ((!) h') (a # rest) = annotate ?p (map ((!) h) (a # rest))"
    using h'(3,4) a(3) rest h1a by simp
  ultimately show ?case by blast
qed

lemma car_trips_annotate:
  assumes "distinct car_logs" "\<forall>a \<in> set car_logs. a < length h"
    and "with_odo = with_odo_of h car_logs"
  shows "\<exists>h'. car_trips car_logs h = Inr h' \<and> length h' = length h \<and>
              (\<forall>a. a \<notin> set with_odo \<longrightarrow> h' ! a = h ! a) \<and>
              map ((!) h') with_odo = annotate None (map ((!) h) with_odo)"
proof -
  have d: "distinct with_odo" using assms(1,3) by (simp add: with_odo_of_def)
  have r: "\<forall>a \<in> set with_odo. a < length h \<and> fl_odometer (h ! a) \<noteq> None"
    using assms(2,3) by (simp add: with_odo_of_def)
  have c: "car_trips car_logs h = trip_loop with_odo (enumerate 0 with_odo) h"
    unfolding car_trips_def Let_def assms(3) with_odo_of_def by (rule refl)
  from trip_loop_annotate [of with_odo "[]" with_odo h, OF _ d r]
  show ?thesis unfolding c by simp
qed

lemma insort_key_agree:
  assumes "f x = g x" "\<forall>y \<in> set ys. f y = g y"
  shows "insort_key f x ys = insort_key g x ys"
  using assms by (induction ys) auto

lemma sort_key_agree:
  assumes "\<forall>x \<in> set xs. f x = g x"
  shows "sort_key f xs = sort_key g xs"
  using assms
proof (induction xs)
  case Nil
  then show ?case by simp
next
  case (Cons x xs)
  then have "sort_key f xs = sort_key g xs" by simp
  moreover have "insort_key f x (sort_key g xs) = insort_key g x (sort_key g xs)"
    using Cons.prems by (intro insort_key_agree) auto
  ultimately show ?case by simp
qed

lemma with_odo_of_agree:
  assumes "\<forall>a \<in> set g. h ! a = h0 ! a"
  shows "with_odo_of h g = with_odo_of h0 g"
proof -
  have f: "filter (\<lambda>a. fl_odometer (h ! a) \<noteq> None) g = filter (\<lambda>a. fl_odometer (h0 ! a) \<noteq> None) g"
    using assms by (intro filter_cong) auto
  show ?thesis
    unfolding with_odo_of_def f
    using assms by (intro sort_key_agree) auto
qed

lemma set_with_odo_of: "set (with_odo_of h g) = {a \<in> set g. fl_odometer (h ! a) \<noteq> None}"
  by (auto simp: with_odo_of_def)

lemma all_trips_annotate:
  assumes "distinct (concat gs)" "\<forall>g \<in> set gs. \<forall>a \<in> set g. a < length h0"
    and "length h = length h0" "\<forall>g \<in> set gs. \<forall>a \<in> set g. h ! a = h0 ! a"
  shows "\<exists>h'. all_trips gs h = Inr h' \<and> length h' = length h0 \<and>
              (\<forall>a. a \<notin> set (concat gs) \<longrightarrow> h' ! a = h ! a) \<and>
              (\<forall>g \<in> set gs.
                 (\<forall>a \<in> set g. fl_odometer (h0 ! a) = None \<longrightarrow> h' ! a = h0 ! a) \<and>
                 map ((!) h') (with_odo_of h0 g) = annotate None (map ((!) h0) (with_odo_of h0 g)))"
  using assms
proof (induction gs arbitrary: h)
  case Nil
  then show ?case by simp
next
  case (Cons g gs)
  have dg: "distinct g" and dgs: "distinct (concat gs)"
    and disj: "set g \<inter> set (concat gs) = {}"
    using Cons.prems(1) by auto
  have rng: "\<forall>a \<in> set g. a < length h" using Cons.prems(2,3) by simp
  have wo: "with_odo_of h g = with_odo_of h0 g"
    using Cons.prems(4) by (intro with_odo_of_agree) simp
  from car_trips_annotate [OF dg rng wo [symmetric]]
  obtain h1 where h1: "car_trips g h = Inr h1" "length h1 = length h"
    "\<forall>a. a \<notin> set (with_odo_of h0 g) \<longrightarrow> h1 ! a = h ! a"
    "map ((!) h1) (with_odo_of h0 g) = annotate None (map ((!) h) (with_odo_of h0 g))"
    by blast
  have sub: "set (with_odo_of h0 g) \<subseteq> set g" by (auto simp: set_with_odo_of)
  have h1_rest: "\<forall>g' \<in> set gs. \<forall>a \<in> set g'. h1 ! a = h0 ! a"
  proof (intro ballI)
    fix g' a assume "g' \<in> set gs" "a \<in> set g'"
    then have "a \<in> set (concat gs)" by auto
    with disj sub have "a \<notin> set (with_odo_of h0 g)" by auto
    with h1(3) have "h1 ! a = h ! a" by simp
    with Cons.prems(4) \<open>g' \<in> set gs\<close> \<open>a \<in> set g'\<close> show "h1 ! a = h0 ! a" by simp
  qed
  have len1: "length h1 = length h0" using h1(2) Cons.prems(3) by simp
  have rng': "\<forall>g \<in> set gs. \<forall>a \<in> set g. a < length h0" using Cons.prems(2) by simp
  from Cons.IH [OF dgs rng' len1 h1_rest]
  obtain h' where h': "all_trips gs h1 = Inr h'" "length h' = length h0"
    "\<forall>a. a \<notin> set (concat gs) \<longrightarrow> h' ! a = h1 ! a"
    "\<forall>g \<in> set gs.
       (\<forall>a \<in> set g. fl_odometer (h0 ! a) = None \<longrightarrow> h' ! a = h0 ! a) \<and>
       map ((!) h') (with_odo_of h0 g) = annotate None (map ((!) h0) (with_odo_of h0 g))"
    by blast
  have keep: "\<forall>a \<in> set g. h' ! a = h1 ! a" using h'(3) disj by auto
  have a1: "all_trips (g # gs) h = Inr h'" using h1(1) h'(1) by simp
  have a3: "\<forall>a. a \<notin> set (concat (g # gs)) \<longrightarrow> h' ! a = h ! a"
    using h'(3) h1(3) sub by auto
  have a4: "\<forall>a \<in> set g. fl_odometer (h0 ! a) = None \<longrightarrow> h' ! a = h0 ! a"
  proof (intro ballI impI)
    fix a assume a: "a \<in> set g" "fl_odometer (h0 ! a) = None"
    then have "a \<notin> set (with_odo_of h0 g)" by (simp add: set_with_odo_of)
    with h1(3) keep a(1) Cons.prems(4) show "h' ! a = h0 ! a" by simp
  qed
  have "map ((!) h') (with_odo_of h0 g) = map ((!) h1) (with_odo_of h0 g)"
    using keep sub by auto
  moreover have "map ((!) h) (with_odo_of h0 g) = map ((!) h0) (with_odo_of h0 g)"
    using Cons.prems(4) sub by auto
  ultimately have a5: "map ((!) h') (with_odo_of h0 g) = annotate None (map ((!) h0) (with_odo_of h0 g))"
    using h1(4) by simp
  from a1 h'(2) a3 a4 a5 h'(4) show ?case by simp
qed

lemma map_fst_dd_append:
  "map fst (dd_append k a bc) = (if k \<in> set (map fst bc) then map fst bc else map fst bc @ [k])"
  by (induction bc) force+

lemma set_dd_append:
  assumes "distinct (map fst bc)"
  shows "set (dd_append k a bc) =
           (if k \<in> fst ` set bc
            then {p \<in> set bc. fst p \<noteq> k} \<union> {(k, addrs @ [a]) | addrs. (k, addrs) \<in> set bc}
            else set bc \<union> {(k, [a])})"
  using assms
proof (induction bc)
  case Nil
  then show ?case by simp
next
  case (Cons p bc)
  obtain k' addrs where p: "p = (k', addrs)" by (cases p)
  show ?case
  proof (cases "k = k'")
    case True
    with Cons.prems p have "k \<notin> fst ` set bc" by auto
    then have "{q \<in> set bc. fst q \<noteq> k} = set bc" "\<And>x. (k, x) \<notin> set bc"
      by (auto simp: image_iff)
    with True p show ?thesis by auto
  next
    case False
    with Cons p show ?thesis by (auto simp: image_iff)
  qed
qed

lemma group_fold_inv:
  "distinct (map fst (fold (\<lambda>a. dd_append (f a) a) xs [])) \<and>
   fst ` set (fold (\<lambda>a. dd_append (f a) a) xs []) = f ` set xs \<and>
   (\<forall>(k, addrs) \<in> set (fold (\<lambda>a. dd_append (f a) a) xs []). addrs = filter (\<lambda>a. f a = k) xs)"
proof (induction xs rule: rev_induct)
  case Nil
  then show ?case by simp
next
  case (snoc x xs)
  let ?bc = "fold (\<lambda>a. dd_append (f a) a) xs []"
  have d: "distinct (map fst ?bc)" and keys: "fst ` set ?bc = f ` set xs"
    and grp: "\<forall>(k, addrs) \<in> set ?bc. addrs = filter (\<lambda>a. f a = k) xs"
    using snoc.IH by auto
  have step: "fold (\<lambda>a. dd_append (f a) a) (xs @ [x]) [] = dd_append (f x) x ?bc"
    by simp
  have 1: "distinct (map fst (dd_append (f x) x ?bc))"
    using d by (auto simp: map_fst_dd_append)
  have 2: "fst ` set (dd_append (f x) x ?bc) = f ` set (xs @ [x])"
  proof -
    have "fst ` set (dd_append (f x) x ?bc) = set (map fst (dd_append (f x) x ?bc))" by simp
    also have "\<dots> = insert (f x) (fst ` set ?bc)"
      unfolding map_fst_dd_append by auto
    finally show ?thesis using keys by auto
  qed
  have 3: "\<forall>(k, addrs) \<in> set (dd_append (f x) x ?bc). addrs = filter (\<lambda>a. f a = k) (xs @ [x])"
  proof (cases "f x \<in> fst ` set ?bc")
    case True
    show ?thesis
      unfolding set_dd_append [OF d] using True grp by auto
  next
    case False
    with keys have "f x \<notin> f ` set xs" by simp
    then have "\<forall>a \<in> set xs. f a \<noteq> f x" by (metis imageI)
    then have "filter (\<lambda>a. f a = f x) xs = []"
      by (simp add: filter_empty_conv)
    moreover have "\<forall>(k, addrs) \<in> set ?bc. k \<noteq> f x"
      using False by (auto simp: image_iff)
    ultimately show ?thesis
      unfolding set_dd_append [OF d] using False grp by auto
  qed
  from 1 2 3 show ?case unfolding step by blast
qed

lemma distinct_concat_groups:
  assumes "distinct ks" "distinct xs"
  shows "distinct (concat (map (\<lambda>k. filter (\<lambda>a. f a = k) xs) ks))"
  using assms(1)
proof (induction ks)
  case Nil
  then show ?case by simp
next
  case (Cons k ks)
  then show ?case using assms(2) by auto
qed

lemma group_by_car_groups:
  "\<exists>ks. distinct ks \<and> set ks = fl_car_id ` set h \<and>
        map snd (group_by_car h) =
          map (\<lambda>k. filter (\<lambda>a. fl_car_id (h ! a) = k) [0..<length h]) ks"
proof -
  let ?f = "\<lambda>a. fl_car_id (h ! a)"
  let ?bc = "group_by_car h"
  from group_fold_inv [of ?f "[0..<length h]"]
  have d: "distinct (map fst ?bc)" and keys: "fst ` set ?bc = ?f ` set [0..<length h]"
    and grp: "\<forall>(k, addrs) \<in> set ?bc. addrs = filter (\<lambda>a. ?f a = k) [0..<length h]"
    unfolding group_by_car_def by auto
  have "(!) h ` {0..<length h} = set h"
    using nth_image [of "length h" h] by simp
  then have "?f ` set [0..<length h] = fl_car_id ` set h"
    by (simp add: image_image [symmetric, of fl_car_id "(!) h"])
  with keys have k: "set (map fst ?bc) = fl_car_id ` set h" by simp
  have "map snd ?bc = map (\<lambda>k. filter (\<lambda>a. ?f a = k) [0..<length h]) (map fst ?bc)"
    using grp by (auto simp: map_eq_conv)
  with d k show ?thesis by blast
qed

lemma trip_metrics_heap:
  "\<exists>H. trip_metrics rows = Inr (sort_reverse fl_logged_at H) \<and> length H = length rows \<and>
        (\<forall>a < length rows. fl_odometer (rows ! a) = None \<longrightarrow> H ! a = rows ! a) \<and>
        (\<forall>k. map ((!) H) (with_odo_of rows (filter (\<lambda>a. fl_car_id (rows ! a) = k) [0..<length rows])) =
               annotate None
                 (map ((!) rows) (with_odo_of rows (filter (\<lambda>a. fl_car_id (rows ! a) = k) [0..<length rows]))))"
proof -
  let ?n = "length rows"
  let ?g = "\<lambda>k. filter (\<lambda>a. fl_car_id (rows ! a) = k) [0..<?n]"
  from group_by_car_groups [of rows]
  obtain ks where ks: "distinct ks" "set ks = fl_car_id ` set rows"
    "map snd (group_by_car rows) = map ?g ks"
    by blast
  let ?gs = "map ?g ks"
  have d: "distinct (concat ?gs)"
    using ks(1) by (intro distinct_concat_groups) simp_all
  have rng: "\<forall>g \<in> set ?gs. \<forall>a \<in> set g. a < length rows" by auto
  from all_trips_annotate [OF d rng refl]
  obtain H where H: "all_trips ?gs rows = Inr H" "length H = length rows"
    "\<forall>a. a \<notin> set (concat ?gs) \<longrightarrow> H ! a = rows ! a"
    "\<forall>g \<in> set ?gs.
       (\<forall>a \<in> set g. fl_odometer (rows ! a) = None \<longrightarrow> H ! a = rows ! a) \<and>
       map ((!) H) (with_odo_of rows g) = annotate None (map ((!) rows) (with_odo_of rows g))"
    by blast
  have tm: "trip_metrics rows = Inr (sort_reverse fl_logged_at H)"
    by (simp add: trip_metrics_def ks(3) H(1))
  have nulls: "\<forall>a < length rows. fl_odometer (rows ! a) = None \<longrightarrow> H ! a = rows ! a"
  proof (intro allI impI)
    fix a assume a: "a < length rows" "fl_odometer (rows ! a) = None"
    have "fl_car_id (rows ! a) \<in> set ks" using ks(2) a(1) by simp
    then have "?g (fl_car_id (rows ! a)) \<in> set ?gs" by simp
    moreover have "a \<in> set (?g (fl_car_id (rows ! a)))" using a(1) by simp
    ultimately show "H ! a = rows ! a" using H(4) a(2) by blast
  qed
  have grp: "\<forall>k. map ((!) H) (with_odo_of rows (?g k)) = annotate None (map ((!) rows) (with_odo_of rows (?g k)))"
  proof
    fix k
    show "map ((!) H) (with_odo_of rows (?g k)) = annotate None (map ((!) rows) (with_odo_of rows (?g k)))"
    proof (cases "k \<in> set ks")
      case True
      then have "?g k \<in> set ?gs" by simp
      with H(4) show ?thesis by blast
    next
      case False
      then have "\<forall>a < length rows. fl_car_id (rows ! a) \<noteq> k"
        using ks(2) by (metis imageI nth_mem)
      then have "?g k = []" by (simp add: filter_empty_conv)
      then show ?thesis by (simp add: with_odo_of_def)
    qed
  qed
  from tm H(2) nulls grp show ?thesis by blast
qed

lemma annotate_nth:
  assumes "i < length ls"
  shows "annotate p ls ! i = trip_entry (if i = 0 then p else fl_odometer (ls ! (i - 1))) (ls ! i)"
  using assms
proof (induction ls arbitrary: p i)
  case Nil
  then show ?case by simp
next
  case (Cons l ls)
  show ?case
  proof (cases i)
    case 0
    then show ?thesis by simp
  next
    case (Suc j)
    with Cons.prems have j: "j < length ls" by simp
    from Cons.IH [OF j, of "fl_odometer l"] Suc show ?thesis
      by (cases j) simp_all
  qed
qed

lemma length_annotate [simp]: "length (annotate p ls) = length ls"
  by (induction ls arbitrary: p) simp_all

lemma map_insort_key:
  "map g (insort_key (\<lambda>a. f (g a)) a xs) = insort_key f (g a) (map g xs)"
  by (induction xs) simp_all

lemma map_sort_key:
  "map g (sort_key (\<lambda>a. f (g a)) xs) = sort_key f (map g xs)"
  by (induction xs) (simp_all add: map_insort_key)

lemma with_odo_rows:
  "map ((!) rows) (with_odo_of rows (filter (\<lambda>a. fl_car_id (rows ! a) = k) [0..<length rows])) =
     sort_key fl_logged_at
       (filter (\<lambda>l. fl_odometer l \<noteq> None) (filter (\<lambda>l. fl_car_id l = k) rows))"
proof -
  have "filter (\<lambda>l. fl_odometer l \<noteq> None) (filter (\<lambda>l. fl_car_id l = k) (map ((!) rows) [0..<length rows]))
      = map ((!) rows) (filter (\<lambda>a. fl_odometer (rows ! a) \<noteq> None)
          (filter (\<lambda>a. fl_car_id (rows ! a) = k) [0..<length rows]))"
    by (simp only: filter_map o_def)
  then show ?thesis
    unfolding with_odo_of_def map_sort_key by (simp only: map_nth)
qed

lemma trip_metrics_rows:
  "\<exists>H. trip_metrics rows = Inr (sort_reverse fl_logged_at H) \<and> length H = length rows \<and>
        (\<forall>a < length rows.
           (fl_odometer (rows ! a) = None \<longrightarrow> H ! a = rows ! a) \<and>
           (fl_odometer (rows ! a) \<noteq> None \<longrightarrow>
              (\<exists>i < length (car_with_odo (fl_car_id (rows ! a)) rows).
                 car_with_odo (fl_car_id (rows ! a)) rows ! i = rows ! a \<and>
                 H ! a = trip_entry (if i = 0 then None
                                     else fl_odometer (car_with_odo (fl_car_id (rows ! a)) rows ! (i - 1)))
                           (rows ! a)))) \<and>
        (\<forall>k i. i < length (car_with_odo k rows) \<longrightarrow>
           (\<exists>a < length rows. rows ! a = car_with_odo k rows ! i \<and>
              H ! a = trip_entry (if i = 0 then None else fl_odometer (car_with_odo k rows ! (i - 1)))
                        (car_with_odo k rows ! i)))"
proof -
  let ?n = "length rows"
  let ?g = "\<lambda>k. filter (\<lambda>a. fl_car_id (rows ! a) = k) [0..<?n]"
  let ?wa = "\<lambda>k. with_odo_of rows (?g k)"
  from trip_metrics_heap [of rows]
  obtain H where H: "trip_metrics rows = Inr (sort_reverse fl_logged_at H)" "length H = length rows"
    "\<forall>a < length rows. fl_odometer (rows ! a) = None \<longrightarrow> H ! a = rows ! a"
    "\<forall>k. map ((!) H) (?wa k) = annotate None (map ((!) rows) (?wa k))"
    by blast
  have W: "\<And>k. map ((!) rows) (?wa k) = car_with_odo k rows"
    by (simp only: with_odo_rows car_with_odo_def)
  have len: "\<And>k. length (?wa k) = length (car_with_odo k rows)"
    using W by (metis length_map)
  have at: "H ! (?wa k ! i) = trip_entry (if i = 0 then None else fl_odometer (car_with_odo k rows ! (i - 1)))
                        (car_with_odo k rows ! i)
            \<and> rows ! (?wa k ! i) = car_with_odo k rows ! i \<and> ?wa k ! i < length rows"
    if i: "i < length (car_with_odo k rows)" for k i
  proof -
    have i': "i < length (?wa k)" using i len by simp
    have "H ! (?wa k ! i) = map ((!) H) (?wa k) ! i" using i' by simp
    also have "\<dots> = annotate None (car_with_odo k rows) ! i" using H(4) W by simp
    also have "\<dots> = trip_entry (if i = 0 then None else fl_odometer (car_with_odo k rows ! (i - 1)))
                        (car_with_odo k rows ! i)"
      using i by (rule annotate_nth)
    finally have 1: "H ! (?wa k ! i) = trip_entry (if i = 0 then None else fl_odometer (car_with_odo k rows ! (i - 1)))
                        (car_with_odo k rows ! i)" .
    have "rows ! (?wa k ! i) = map ((!) rows) (?wa k) ! i" using i' by simp
    then have 2: "rows ! (?wa k ! i) = car_with_odo k rows ! i" using W by simp
    have "?wa k ! i \<in> set (?wa k)" using i' by simp
    then have 3: "?wa k ! i < length rows" by (simp add: set_with_odo_of)
    from 1 2 3 show ?thesis by blast
  qed
  have rows_part: "\<forall>a < length rows.
           (fl_odometer (rows ! a) = None \<longrightarrow> H ! a = rows ! a) \<and>
           (fl_odometer (rows ! a) \<noteq> None \<longrightarrow>
              (\<exists>i < length (car_with_odo (fl_car_id (rows ! a)) rows).
                 car_with_odo (fl_car_id (rows ! a)) rows ! i = rows ! a \<and>
                 H ! a = trip_entry (if i = 0 then None
                                     else fl_odometer (car_with_odo (fl_car_id (rows ! a)) rows ! (i - 1)))
                           (rows ! a)))"
  proof (intro allI impI conjI)
    fix a assume "a < length rows" "fl_odometer (rows ! a) = None"
    with H(3) show "H ! a = rows ! a" by simp
  next
    fix a assume a: "a < length rows" "fl_odometer (rows ! a) \<noteq> None"
    let ?k = "fl_car_id (rows ! a)"
    have "a \<in> set (?wa ?k)" using a by (simp add: set_with_odo_of)
    then obtain i where i: "i < length (?wa ?k)" "?wa ?k ! i = a"
      by (auto simp: in_set_conv_nth)
    then have i': "i < length (car_with_odo ?k rows)" using len by simp
    from at [OF i'] i(2)
    have "car_with_odo ?k rows ! i = rows ! a \<and>
          H ! a = trip_entry (if i = 0 then None else fl_odometer (car_with_odo ?k rows ! (i - 1))) (rows ! a)"
      by simp
    with i' show "\<exists>i < length (car_with_odo ?k rows).
                 car_with_odo ?k rows ! i = rows ! a \<and>
                 H ! a = trip_entry (if i = 0 then None
                                     else fl_odometer (car_with_odo ?k rows ! (i - 1)))
                           (rows ! a)"
      by blast
  qed
  have idx_part: "\<forall>k i. i < length (car_with_odo k rows) \<longrightarrow>
           (\<exists>a < length rows. rows ! a = car_with_odo k rows ! i \<and>
              H ! a = trip_entry (if i = 0 then None else fl_odometer (car_with_odo k rows ! (i - 1)))
                        (car_with_odo k rows ! i))"
    using at by blast
  from H(1,2) rows_part idx_part show ?thesis by blast
qed

subsection \<open>The rows the query fetches\<close>

lemma set_sort_reverse [simp]: "set (sort_reverse f xs) = set xs"
  by (simp add: sort_reverse_def)

lemma join_row_fields [simp]:
  "fl_id (join_row fl c) = fl_id fl" "fl_car_id (join_row fl c) = fl_car_id fl"
  "fl_logged_at (join_row fl c) = fl_logged_at fl" "fl_odometer (join_row fl c) = fl_odometer fl"
  "fl_fuel_amount (join_row fl c) = fl_fuel_amount fl" "fl_total_cost (join_row fl c) = fl_total_cost fl"
  "fl_price_per_unit (join_row fl c) = fl_price_per_unit fl"
  by (simp_all add: join_row_def)

lemma filter_unique:
  assumes "distinct (map g xs)" "x \<in> set xs"
  shows "filter (\<lambda>y. g y = g x) xs = [x]"
  using assms
proof (induction xs)
  case Nil
  then show ?case by simp
next
  case (Cons y ys)
  show ?case
  proof (cases "y = x")
    case True
    with Cons.prems(1) have "\<forall>z \<in> set ys. g z \<noteq> g x" by (auto simp: image_iff)
    then have "filter (\<lambda>z. g z = g x) ys = []" by (simp add: filter_empty_conv)
    with True show ?thesis by simp
  next
    case False
    with Cons.prems have "x \<in> set ys" "g y \<noteq> g x" by (auto simp: image_iff)
    with Cons show ?thesis by simp
  qed
qed

lemma filter_at_most_one:
  assumes "distinct (map g xs)"
  shows "length (filter (\<lambda>y. g y = k) xs) \<le> 1"
proof (cases "\<exists>x \<in> set xs. g x = k")
  case True
  then obtain x where "x \<in> set xs" "g x = k" by blast
  with filter_unique [OF assms, of x] show ?thesis by simp
next
  case False
  then have "filter (\<lambda>y. g y = k) xs = []" by (simp add: filter_empty_conv)
  then show ?thesis by simp
qed

lemma sort_key_twice: "sort_key f (sort_key f xs) = sort_key f xs"
  by (rule sort_key_id_if_sorted) (rule sorted_sort_key)

lemma concat_map_if:
  "concat (map (\<lambda>x. if P x then [g x] else []) xs) = map g (filter P xs)"
  by (induction xs) simp_all

lemma select_logs_car:
  assumes "distinct (map c_id (cars s))" "c \<in> set (cars s)" "in_scope q (int (c_id c))"
  shows "filter (\<lambda>l. fl_car_id l = int (c_id c)) (select_logs s q) =
           sort_key fl_logged_at
             (map (\<lambda>fl. join_row fl c) (filter (\<lambda>fl. fl_car_id fl = int (c_id c)) (fuel_logs s)))"
proof -
  let ?k = "int (c_id c)"
  let ?J = "\<lambda>fl. map (join_row fl) (filter (\<lambda>c. fl_car_id fl = int (c_id c)) (cars s))"
  let ?F = "filter (\<lambda>fl. in_scope q (fl_car_id fl)) (fuel_logs s)"
  have one: "filter (\<lambda>c'. c_id c' = c_id c) (cars s) = [c]"
    using assms(1,2) by (rule filter_unique)
  have J: "filter (\<lambda>l. fl_car_id l = ?k) (?J fl) = (if fl_car_id fl = ?k then [join_row fl c] else [])" for fl
  proof (cases "fl_car_id fl = ?k")
    case True
    then have "filter (\<lambda>c'. fl_car_id fl = int (c_id c')) (cars s) = filter (\<lambda>c'. c_id c' = c_id c) (cars s)"
      by (intro filter_cong) auto
    with one True show ?thesis by (simp add: filter_map o_def)
  next
    case False
    then show ?thesis by (simp add: filter_map o_def)
  qed
  have "filter (\<lambda>l. fl_car_id l = ?k) (concat (map ?J ?F)) =
          concat (map (\<lambda>fl. filter (\<lambda>l. fl_car_id l = ?k) (?J fl)) ?F)"
    by (simp add: filter_concat o_def)
  also have "\<dots> = concat (map (\<lambda>fl. if fl_car_id fl = ?k then [join_row fl c] else []) ?F)"
    by (simp only: J)
  also have "\<dots> = map (\<lambda>fl. join_row fl c) (filter (\<lambda>fl. fl_car_id fl = ?k) ?F)"
    by (rule concat_map_if)
  also have "filter (\<lambda>fl. fl_car_id fl = ?k) ?F = filter (\<lambda>fl. fl_car_id fl = ?k) (fuel_logs s)"
    using assms(3) by (auto intro: filter_cong)
  finally have "filter (\<lambda>l. fl_car_id l = ?k) (concat (map ?J ?F)) =
      map (\<lambda>fl. join_row fl c) (filter (\<lambda>fl. fl_car_id fl = ?k) (fuel_logs s))" .
  then show ?thesis
    unfolding select_logs_def by (simp only: filter_sort)
qed

lemma select_logs_with_odo:
  assumes "distinct (map c_id (cars s))" "c \<in> set (cars s)" "in_scope q (int (c_id c))"
  shows "car_with_odo (int (c_id c)) (select_logs s q) =
           map (\<lambda>fl. join_row fl c) (car_with_odo (int (c_id c)) (fuel_logs s))"
proof -
  let ?k = "int (c_id c)"
  let ?Fk = "filter (\<lambda>fl. fl_car_id fl = ?k) (fuel_logs s)"
  let ?O = "\<lambda>l. fl_odometer l \<noteq> None"
  have "car_with_odo ?k (select_logs s q) =
          sort_key fl_logged_at (filter ?O (sort_key fl_logged_at (map (\<lambda>fl. join_row fl c) ?Fk)))"
    unfolding car_with_odo_def select_logs_car [OF assms] by (rule refl)
  also have "\<dots> = sort_key fl_logged_at (filter ?O (map (\<lambda>fl. join_row fl c) ?Fk))"
    by (simp only: filter_sort sort_key_twice)
  also have "filter ?O (map (\<lambda>fl. join_row fl c) ?Fk) = map (\<lambda>fl. join_row fl c) (filter (\<lambda>fl. fl_odometer fl \<noteq> None) ?Fk)"
    by (simp add: filter_map o_def)
  also have "sort_key fl_logged_at (map (\<lambda>fl. join_row fl c) (filter (\<lambda>fl. fl_odometer fl \<noteq> None) ?Fk))
      = map (\<lambda>fl. join_row fl c) (sort_key (\<lambda>fl. fl_logged_at (join_row fl c)) (filter (\<lambda>fl. fl_odometer fl \<noteq> None) ?Fk))"
    by (rule map_sort_key [symmetric])
  finally show ?thesis by (simp add: car_with_odo_def)
qed

lemma distinct_concat_ids:
  assumes "distinct (map g F)" "\<forall>x. length (J x) \<le> 1 \<and> (\<forall>e \<in> set (J x). g' e = g x)"
  shows "distinct (map g' (concat (map J F))) \<and> set (map g' (concat (map J F))) \<subseteq> set (map g F)"
  using assms(1)
proof (induction F)
  case Nil
  then show ?case by simp
next
  case (Cons x F)
  then have IH: "distinct (map g' (concat (map J F)))" "set (map g' (concat (map J F))) \<subseteq> set (map g F)"
    and x: "g x \<notin> set (map g F)"
    by auto
  have Jx: "length (J x) \<le> 1" "\<forall>e \<in> set (J x). g' e = g x" using assms(2) by auto
  have d: "distinct (map g' (J x))"
    using Jx(1) by (cases "J x") (auto simp: le_Suc_eq)
  have sub: "set (map g' (J x)) \<subseteq> {g x}" using Jx(2) by auto
  with IH(2) x have disj: "set (map g' (J x)) \<inter> set (map g' (concat (map J F))) = {}"
    by blast
  have 1: "distinct (map g' (concat (map J (x # F))))"
    using d IH(1) disj by (simp only: list.map concat.simps map_append distinct_append)
  have 2: "set (map g' (concat (map J (x # F)))) \<subseteq> set (map g (x # F))"
    using sub IH(2) by (simp only: list.map concat.simps map_append set_append list.set) blast
  from 1 2 show ?case by blast
qed

lemma select_logs_ids:
  assumes "distinct (map fl_id (fuel_logs s))" "distinct (map c_id (cars s))"
  shows "distinct (map fl_id (select_logs s q))"
proof -
  let ?J = "\<lambda>fl. map (join_row fl) (filter (\<lambda>c. fl_car_id fl = int (c_id c)) (cars s))"
  let ?F = "filter (\<lambda>fl. in_scope q (fl_car_id fl)) (fuel_logs s)"
  have dF: "distinct (map fl_id ?F)" using assms(1) by (rule distinct_map_filter)
  have J: "\<forall>fl. length (?J fl) \<le> 1 \<and> (\<forall>e \<in> set (?J fl). fl_id e = fl_id fl)"
  proof (intro allI conjI)
    fix fl
    show "length (?J fl) \<le> 1"
    proof (cases "fl_car_id fl < 0")
      case True
      then have "filter (\<lambda>c. fl_car_id fl = int (c_id c)) (cars s) = []"
        by (auto simp: filter_empty_conv)
      then show ?thesis by simp
    next
      case False
      then have "filter (\<lambda>c. fl_car_id fl = int (c_id c)) (cars s) =
                 filter (\<lambda>c. c_id c = nat (fl_car_id fl)) (cars s)"
        by (intro filter_cong) auto
      with filter_at_most_one [OF assms(2), of "nat (fl_car_id fl)"] show ?thesis by simp
    qed
    show "\<forall>e \<in> set (?J fl). fl_id e = fl_id fl" by auto
  qed
  from distinct_concat_ids [OF dF J]
  have d: "distinct (map fl_id (concat (map ?J ?F)))" by blast
  then have "distinct (concat (map ?J ?F)) \<and> inj_on fl_id (set (concat (map ?J ?F)))"
    by (simp only: distinct_map)
  then have "distinct (sort_key fl_logged_at (concat (map ?J ?F))) \<and>
             inj_on fl_id (set (sort_key fl_logged_at (concat (map ?J ?F))))"
    by (simp only: distinct_sort set_sort)
  then show ?thesis
    unfolding select_logs_def by (simp only: distinct_map)
qed

subsection \<open>The entries of the listing\<close>

lemma get_logs_total: "\<exists>out. get_logs s q = Inr (s, 200, Logs out)"
  using trip_metrics_rows [of "select_logs s q"] by (auto simp: get_logs_def)

lemma get_logs_entries:
  assumes "distinct (map fl_id (fuel_logs s))" "distinct (map c_id (cars s))"
  shows "\<exists>out. get_logs s q = Inr (s, 200, Logs out) \<and>
           (\<forall>c \<in> set (cars s). in_scope q (int (c_id c)) \<longrightarrow>
              (\<forall>i < length (car_with_odo (int (c_id c)) (fuel_logs s)).
                 trip_entry (if i = 0 then None
                             else fl_odometer (car_with_odo (int (c_id c)) (fuel_logs s) ! (i - 1)))
                   (join_row (car_with_odo (int (c_id c)) (fuel_logs s) ! i) c) \<in> set out \<and>
                 (\<forall>e' \<in> set out.
                    fl_id e' = fl_id (car_with_odo (int (c_id c)) (fuel_logs s) ! i) \<longrightarrow>
                    e' = trip_entry (if i = 0 then None
                                     else fl_odometer (car_with_odo (int (c_id c)) (fuel_logs s) ! (i - 1)))
                           (join_row (car_with_odo (int (c_id c)) (fuel_logs s) ! i) c)))) \<and>
           (\<forall>e \<in> set out. fl_odometer e = None \<longrightarrow> e \<in> set (select_logs s q))"
proof -
  define rows where "rows = select_logs s q"
  from trip_metrics_rows [of rows]
  obtain H where H: "trip_metrics rows = Inr (sort_reverse fl_logged_at H)" "length H = length rows"
    and rows_part: "\<forall>a < length rows.
           (fl_odometer (rows ! a) = None \<longrightarrow> H ! a = rows ! a) \<and>
           (fl_odometer (rows ! a) \<noteq> None \<longrightarrow>
              (\<exists>i < length (car_with_odo (fl_car_id (rows ! a)) rows).
                 car_with_odo (fl_car_id (rows ! a)) rows ! i = rows ! a \<and>
                 H ! a = trip_entry (if i = 0 then None
                                     else fl_odometer (car_with_odo (fl_car_id (rows ! a)) rows ! (i - 1)))
                           (rows ! a)))"
    and idx_part: "\<forall>k i. i < length (car_with_odo k rows) \<longrightarrow>
           (\<exists>a < length rows. rows ! a = car_with_odo k rows ! i \<and>
              H ! a = trip_entry (if i = 0 then None else fl_odometer (car_with_odo k rows ! (i - 1)))
                        (car_with_odo k rows ! i))"
    by blast
  define out where "out = sort_reverse fl_logged_at H"
  have g: "get_logs s q = Inr (s, 200, Logs out)"
    by (simp add: get_logs_def rows_def [symmetric] H(1) out_def)
  have set_out: "set out = set H" by (simp add: out_def)
  have ids: "distinct (map fl_id rows)"
    unfolding rows_def using assms by (rule select_logs_ids)
  have same_id: "fl_id (H ! a) = fl_id (rows ! a)" and same_odo: "fl_odometer (H ! a) = fl_odometer (rows ! a)"
    if "a < length rows" for a
    using rows_part that by (cases "fl_odometer (rows ! a) = None"; auto)+
  have uniq: "e' = H ! a" if "e' \<in> set out" "fl_id e' = fl_id (rows ! a)" "a < length rows" for e' a
  proof -
    from that(1) set_out obtain a' where a': "a' < length H" "e' = H ! a'"
      by (auto simp: in_set_conv_nth)
    then have "fl_id (rows ! a') = fl_id (rows ! a)" using same_id H(2) that(2) by simp
    then have "a' = a"
      using nth_eq_iff_index_eq [OF ids, of a' a] a'(1) H(2) that(3) by simp
    with a'(2) show ?thesis by simp
  qed
  have part1: "\<forall>c \<in> set (cars s). in_scope q (int (c_id c)) \<longrightarrow>
              (\<forall>i < length (car_with_odo (int (c_id c)) (fuel_logs s)).
                 trip_entry (if i = 0 then None
                             else fl_odometer (car_with_odo (int (c_id c)) (fuel_logs s) ! (i - 1)))
                   (join_row (car_with_odo (int (c_id c)) (fuel_logs s) ! i) c) \<in> set out \<and>
                 (\<forall>e' \<in> set out.
                    fl_id e' = fl_id (car_with_odo (int (c_id c)) (fuel_logs s) ! i) \<longrightarrow>
                    e' = trip_entry (if i = 0 then None
                                     else fl_odometer (car_with_odo (int (c_id c)) (fuel_logs s) ! (i - 1)))
                           (join_row (car_with_odo (int (c_id c)) (fuel_logs s) ! i) c)))"
  proof (intro ballI impI allI)
    fix c i
    assume c: "c \<in> set (cars s)" "in_scope q (int (c_id c))"
    let ?W = "car_with_odo (int (c_id c)) (fuel_logs s)"
    assume i: "i < length ?W"
    have W: "car_with_odo (int (c_id c)) rows = map (\<lambda>fl. join_row fl c) ?W"
      unfolding rows_def using assms(2) c by (rule select_logs_with_odo)
    then have i': "i < length (car_with_odo (int (c_id c)) rows)" using i by simp
    let ?e = "trip_entry (if i = 0 then None else fl_odometer (?W ! (i - 1))) (join_row (?W ! i) c)"
    from idx_part i' obtain a where a: "a < length rows"
      "rows ! a = car_with_odo (int (c_id c)) rows ! i"
      "H ! a = trip_entry (if i = 0 then None
                           else fl_odometer (car_with_odo (int (c_id c)) rows ! (i - 1)))
                 (car_with_odo (int (c_id c)) rows ! i)"
      by blast
    have ra: "rows ! a = join_row (?W ! i) c" using a(2) W i by simp
    have Ha: "H ! a = ?e" using a(3) W i by (cases i) simp_all
    have "?e \<in> set out" using Ha a(1) H(2) set_out by (metis nth_mem)
    moreover have "\<forall>e' \<in> set out. fl_id e' = fl_id (?W ! i) \<longrightarrow> e' = ?e"
    proof (intro ballI impI)
      fix e' assume "e' \<in> set out" "fl_id e' = fl_id (?W ! i)"
      then have "e' = H ! a" using uniq [of e' a] ra a(1) by simp
      with Ha show "e' = ?e" by simp
    qed
    ultimately show "?e \<in> set out \<and> (\<forall>e' \<in> set out. fl_id e' = fl_id (?W ! i) \<longrightarrow> e' = ?e)"
      by blast
  qed
  have part2: "\<forall>e \<in> set out. fl_odometer e = None \<longrightarrow> e \<in> set (select_logs s q)"
  proof (intro ballI impI)
    fix e assume e: "e \<in> set out" "fl_odometer e = None"
    then obtain a where a: "a < length H" "e = H ! a"
      using set_out by (auto simp: in_set_conv_nth)
    then have "fl_odometer (rows ! a) = None" using same_odo H(2) e(2) by simp
    then have "H ! a = rows ! a" using rows_part a(1) H(2) by simp
    then show "e \<in> set (select_logs s q)" using a H(2) by (simp add: rows_def)
  qed
  from g part1 part2 show ?thesis by blast
qed

lemma get_logs_entry:
  assumes "distinct (map fl_id (fuel_logs s))" "distinct (map c_id (cars s))"
    and "c \<in> set (cars s)" "in_scope q (int (c_id c))"
    and "with_odo = car_with_odo (int (c_id c)) (fuel_logs s)" "i < length with_odo"
    and "e = trip_entry (if i = 0 then None else fl_odometer (with_odo ! (i - 1)))
               (join_row (with_odo ! i) c)"
  shows "\<exists>out. get_logs s q = Inr (s, 200, Logs out) \<and> e \<in> set out \<and>
               (\<forall>e' \<in> set out. fl_id e' = fl_id (with_odo ! i) \<longrightarrow> e' = e)"
proof -
  from get_logs_entries [OF assms(1,2), of q]
  obtain out where out: "get_logs s q = Inr (s, 200, Logs out)"
    and ent: "\<forall>c \<in> set (cars s). in_scope q (int (c_id c)) \<longrightarrow>
              (\<forall>i < length (car_with_odo (int (c_id c)) (fuel_logs s)).
                 trip_entry (if i = 0 then None
                             else fl_odometer (car_with_odo (int (c_id c)) (fuel_logs s) ! (i - 1)))
                   (join_row (car_with_odo (int (c_id c)) (fuel_logs s) ! i) c) \<in> set out \<and>
                 (\<forall>e' \<in> set out.
                    fl_id e' = fl_id (car_with_odo (int (c_id c)) (fuel_logs s) ! i) \<longrightarrow>
                    e' = trip_entry (if i = 0 then None
                                     else fl_odometer (car_with_odo (int (c_id c)) (fuel_logs s) ! (i - 1)))
                           (join_row (car_with_odo (int (c_id c)) (fuel_logs s) ! i) c)))"
    by blast
  from ent assms(3,4)
  have "\<forall>i < length with_odo.
          trip_entry (if i = 0 then None else fl_odometer (with_odo ! (i - 1)))
            (join_row (with_odo ! i) c) \<in> set out \<and>
          (\<forall>e' \<in> set out. fl_id e' = fl_id (with_odo ! i) \<longrightarrow>
             e' = trip_entry (if i = 0 then None else fl_odometer (with_odo ! (i - 1)))
                    (join_row (with_odo ! i) c))"
    unfolding assms(5) by blast
  with assms(6) have "e \<in> set out \<and> (\<forall>e' \<in> set out. fl_id e' = fl_id (with_odo ! i) \<longrightarrow> e' = e)"
    unfolding assms(7) by blast
  with out show ?thesis by blast
qed


text \<open>
  C2. GET /api/logs answers 200 on every store: no division fails. And with \<open>with_odo\<close>
  as above, the first entry of \<open>with_odo\<close> and every entry whose odometer is not above its
  predecessor's has all four trip fields null in the listing.
\<close>

theorem trip_fields_null:
  "(\<exists>out. get_logs s q = Inr (s, 200, Logs out)) \<and>
   (distinct (map fl_id (fuel_logs s)) \<and> distinct (map c_id (cars s)) \<and>
    c \<in> set (cars s) \<and> in_scope q (int (c_id c)) \<and>
    with_odo = sort_key fl_logged_at
           (filter (\<lambda>fl. fl_odometer fl \<noteq> None)
              (filter (\<lambda>fl. fl_car_id fl = int (c_id c)) (fuel_logs s))) \<and>
    i < length with_odo \<and>
    (i = 0 \<or> (\<exists>odo prev_odo. fl_odometer (with_odo ! i) = Some odo \<and>
                 fl_odometer (with_odo ! (i - 1)) = Some prev_odo \<and> odo - prev_odo \<le> 0)) \<longrightarrow>
    (\<exists>out e. get_logs s q = Inr (s, 200, Logs out) \<and>
       e \<in> set out \<and> fl_id e = fl_id (with_odo ! i) \<and>
       (\<forall>e' \<in> set out. fl_id e' = fl_id (with_odo ! i) \<longrightarrow> e' = e) \<and>
       distance_km e = Null \<and> consumption_per100 e = Null \<and>
       rand_per_km e = Null \<and> rand_per_litre_trip e = Null))"
proof (intro conjI impI)
  show "\<exists>out. get_logs s q = Inr (s, 200, Logs out)" by (rule get_logs_total)
next
  assume a: "distinct (map fl_id (fuel_logs s)) \<and> distinct (map c_id (cars s)) \<and>
    c \<in> set (cars s) \<and> in_scope q (int (c_id c)) \<and>
    with_odo = sort_key fl_logged_at
           (filter (\<lambda>fl. fl_odometer fl \<noteq> None)
              (filter (\<lambda>fl. fl_car_id fl = int (c_id c)) (fuel_logs s))) \<and>
    i < length with_odo \<and>
    (i = 0 \<or> (\<exists>odo prev_odo. fl_odometer (with_odo ! i) = Some odo \<and>
                 fl_odometer (with_odo ! (i - 1)) = Some prev_odo \<and> odo - prev_odo \<le> 0))"
  then have W: "with_odo = car_with_odo (int (c_id c)) (fuel_logs s)"
    by (simp add: car_with_odo_def)
  from a have d: "distinct (map fl_id (fuel_logs s))" "distinct (map c_id (cars s))"
    "c \<in> set (cars s)" "in_scope q (int (c_id c))" and i: "i < length with_odo"
    by blast+
  define e where "e = trip_entry (if i = 0 then None else fl_odometer (with_odo ! (i - 1)))
                        (join_row (with_odo ! i) c)"
  from get_logs_entry [OF d W i e_def]
  obtain out where out: "get_logs s q = Inr (s, 200, Logs out)" and 1: "e \<in> set out"
    and 2: "\<forall>e' \<in> set out. fl_id e' = fl_id (with_odo ! i) \<longrightarrow> e' = e"
    by blast
  have 3: "fl_id e = fl_id (with_odo ! i)" by (simp add: e_def)
  have 4: "distance_km e = Null \<and> consumption_per100 e = Null \<and>
           rand_per_km e = Null \<and> rand_per_litre_trip e = Null"
    using a by (auto simp: e_def trip_entry_def no_trip_def split: option.splits)
  from out 1 2 3 4
  show "\<exists>out e. get_logs s q = Inr (s, 200, Logs out) \<and>
       e \<in> set out \<and> fl_id e = fl_id (with_odo ! i) \<and>
       (\<forall>e' \<in> set out. fl_id e' = fl_id (with_odo ! i) \<longrightarrow> e' = e) \<and>
       distance_km e = Null \<and> consumption_per100 e = Null \<and>
       rand_per_km e = Null \<and> rand_per_litre_trip e = Null"
    by blast
qed

lemma example_store_with_odo:
  "sort_key fl_logged_at
     (filter (\<lambda>fl. fl_odometer fl \<noteq> None)
        (filter (\<lambda>fl. fl_car_id fl = int (c_id (cars example_store ! 0))) (fuel_logs example_store)))
   = [fuel_logs example_store ! 0, fuel_logs example_store ! 2, fuel_logs example_store ! 3]"
  by code_simp

lemma example_store_wf:
  "distinct (map fl_id (fuel_logs example_store))" "distinct (map c_id (cars example_store))"
  "cars example_store ! 0 \<in> set (cars example_store)"
  "in_scope None (int (c_id (cars example_store ! 0)))"
  by (simp_all add: example_store_def in_scope_def)


theorem trip_fields_null_witness:
  "(\<exists>out e. get_logs example_store None = Inr (example_store, 200, Logs out) \<and>
      e \<in> set out \<and> fl_id e = 1 \<and> distance_km e = Null \<and> consumption_per100 e = Null \<and>
      rand_per_km e = Null \<and> rand_per_litre_trip e = Null) \<and>
   (\<exists>out e. get_logs example_store None = Inr (example_store, 200, Logs out) \<and>
      e \<in> set out \<and> fl_id e = 4 \<and> distance_km e = Null \<and> consumption_per100 e = Null \<and>
      rand_per_km e = Null \<and> rand_per_litre_trip e = Null)"
proof -
  let ?wo = "[fuel_logs example_store ! 0, fuel_logs example_store ! 2, fuel_logs example_store ! 3]"
  have at0: "(0::nat) < length ?wo \<and> ((0::nat) = 0 \<or>
       (\<exists>odo prev_odo. fl_odometer (?wo ! 0) = Some odo \<and>
          fl_odometer (?wo ! (0 - 1)) = Some prev_odo \<and> odo - prev_odo \<le> 0))"
    by simp
  have o2: "fl_odometer (?wo ! 2) = Some 1100" "fl_odometer (?wo ! (2 - 1)) = Some 1200"
    by (simp_all add: example_store_def)
  have le: "(1100::rat) - 1200 \<le> 0" by simp
  have len2: "2 < length ?wo" by simp
  from o2 le len2 have at2: "2 < length ?wo \<and> ((2::nat) = 0 \<or>
       (\<exists>odo prev_odo. fl_odometer (?wo ! 2) = Some odo \<and>
          fl_odometer (?wo ! (2 - 1)) = Some prev_odo \<and> odo - prev_odo \<le> 0))"
    by blast
  have v: "fl_id (?wo ! 0) = 1" "fl_id (?wo ! 2) = 4"
    by (simp_all add: example_store_def)
  have one: "\<exists>out e. get_logs example_store None = Inr (example_store, 200, Logs out) \<and>
      e \<in> set out \<and> fl_id e = 1 \<and> distance_km e = Null \<and> consumption_per100 e = Null \<and>
      rand_per_km e = Null \<and> rand_per_litre_trip e = Null"
  proof -
    note imp = trip_fields_null [of example_store None "cars example_store ! 0" ?wo 0, THEN conjunct2]
    have "\<exists>out e. get_logs example_store None = Inr (example_store, 200, Logs out) \<and>
       e \<in> set out \<and> fl_id e = fl_id (?wo ! 0) \<and>
       (\<forall>e' \<in> set out. fl_id e' = fl_id (?wo ! 0) \<longrightarrow> e' = e) \<and>
       distance_km e = Null \<and> consumption_per100 e = Null \<and>
       rand_per_km e = Null \<and> rand_per_litre_trip e = Null"
      by (rule imp [THEN mp]) (intro conjI example_store_wf example_store_with_odo [symmetric]
          at0 [THEN conjunct1] at0 [THEN conjunct2])
    then show ?thesis unfolding v by blast
  qed
  have two: "\<exists>out e. get_logs example_store None = Inr (example_store, 200, Logs out) \<and>
      e \<in> set out \<and> fl_id e = 4 \<and> distance_km e = Null \<and> consumption_per100 e = Null \<and>
      rand_per_km e = Null \<and> rand_per_litre_trip e = Null"
  proof -
    note imp = trip_fields_null [of example_store None "cars example_store ! 0" ?wo 2, THEN conjunct2]
    have "\<exists>out e. get_logs example_store None = Inr (example_store, 200, Logs out) \<and>
       e \<in> set out \<and> fl_id e = fl_id (?wo ! 2) \<and>
       (\<forall>e' \<in> set out. fl_id e' = fl_id (?wo ! 2) \<longrightarrow> e' = e) \<and>
       distance_km e = Null \<and> consumption_per100 e = Null \<and>
       rand_per_km e = Null \<and> rand_per_litre_trip e = Null"
      by (rule imp [THEN mp]) (intro conjI example_store_wf example_store_with_odo [symmetric]
          at2 [THEN conjunct1] at2 [THEN conjunct2])
    then show ?thesis unfolding v by blast
  qed
  from one two show ?thesis by blast
qed

section \<open>The listing as a function of the rows\<close>





lemma listed_odometer [simp]: "fl_odometer (listed rows r) = fl_odometer r"
  by (simp add: listed_def)








section \<open>Reading twice\<close>







section \<open>Entries of a deleted vehicle\<close>

lemma select_logs_has_car:
  assumes "r \<in> set (select_logs s q)"
  shows "\<exists>c \<in> set (cars s). fl_car_id r = int (c_id c)"
  using assms by (auto simp: select_logs_def)

lemma select_logs_in_scope:
  assumes "r \<in> set (select_logs s q)"
  shows "in_scope q (fl_car_id r)"
  using assms by (auto simp: select_logs_def)

lemma select_services_has_car:
  assumes "r \<in> set (select_services s q cat)"
  shows "\<exists>c \<in> set (cars s). sl_car_id r = int (c_id c)"
  using assms by (auto simp: select_services_def join_service_def)

lemma listed_from_rows:
  assumes "get_logs s q = Inr (s1, st, Logs out)" "e \<in> set out"
  shows "\<exists>r \<in> set (select_logs s q). fl_car_id e = fl_car_id r"
proof -
  define rows where "rows = select_logs s q"
  from trip_metrics_rows [of rows]
  obtain H where H: "trip_metrics rows = Inr (sort_reverse fl_logged_at H)" "length H = length rows"
    and rows_part: "\<forall>a < length rows.
           (fl_odometer (rows ! a) = None \<longrightarrow> H ! a = rows ! a) \<and>
           (fl_odometer (rows ! a) \<noteq> None \<longrightarrow>
              (\<exists>i < length (car_with_odo (fl_car_id (rows ! a)) rows).
                 car_with_odo (fl_car_id (rows ! a)) rows ! i = rows ! a \<and>
                 H ! a = trip_entry (if i = 0 then None
                                     else fl_odometer (car_with_odo (fl_car_id (rows ! a)) rows ! (i - 1)))
                           (rows ! a)))"
    by blast
  have "out = sort_reverse fl_logged_at H"
    using assms(1) H(1) by (simp add: get_logs_def rows_def)
  with assms(2) have "e \<in> set H" by simp
  then obtain a where a: "a < length rows" "e = H ! a"
    using H(2) by (auto simp: in_set_conv_nth)
  have "fl_car_id (H ! a) = fl_car_id (rows ! a)"
    using rows_part a(1) by (cases "fl_odometer (rows ! a) = None"; auto)
  with a show ?thesis unfolding rows_def by (metis nth_mem)
qed

lemma get_stats_body_cars: "get_stats_body (s\<lparr>cars := cs\<rparr>) q = get_stats_body s q"
  by (simp add: get_stats_body_def)

lemma trip_metrics_Nil: "trip_metrics [] = Inr []"
  by (simp add: trip_metrics_def group_by_car_def sort_reverse_def)

text \<open>
  C10. DELETE /api/cars/i removes the vehicle and nothing else. In the store it leaves,
  no listing of GET /api/logs or GET /api/services holds an entry of vehicle \<open>i\<close> (the
  listings join the entries with the vehicles), and the listing of the fuel logs of \<open>i\<close>
  is empty; GET /api/stats is what it was before the deletion: its count, sums, average,
  odometer extremes and service breakdown still run over every stored entry in scope,
  those of vehicle \<open>i\<close> included. So a listing and the statistics of the same scope can
  disagree on the entries they cover.
\<close>

theorem orphaned_entries:
  assumes "delete_car s i = Inr (s', st, b)"
  shows "(\<forall>q. \<exists>out. get_logs s' q = Inr (s', 200, Logs out) \<and>
               (\<forall>e \<in> set out. fl_car_id e \<noteq> int i)) \<and>
         (\<forall>q cat. \<exists>rows. get_services s' q cat = Inr (s', 200, Services rows) \<and>
               (\<forall>r \<in> set rows. sl_car_id r \<noteq> int i)) \<and>
         get_logs s' (Some (int i)) = Inr (s', 200, Logs []) \<and>
         (\<forall>q. \<exists>stt. get_stats s' q = Inr (s', 200, Stats stt) \<and>
               get_stats s q = Inr (s, 200, Stats stt) \<and>
               total_entries stt = length (filter (\<lambda>fl. in_scope q (fl_car_id fl)) (fuel_logs s)) \<and>
               total_fuel stt =
                 sum_list (map fl_fuel_amount (filter (\<lambda>fl. in_scope q (fl_car_id fl)) (fuel_logs s))) \<and>
               total_spent stt =
                 sum_list (map fl_total_cost (filter (\<lambda>fl. in_scope q (fl_car_id fl)) (fuel_logs s))) \<and>
               avg_price_per_unit stt =
                 sql_avg (map fl_price_per_unit (filter (\<lambda>fl. in_scope q (fl_car_id fl)) (fuel_logs s))) \<and>
               first_odo stt =
                 sql_min (map fl_odometer (filter (\<lambda>fl. in_scope q (fl_car_id fl)) (fuel_logs s))) \<and>
               last_odo stt =
                 sql_max (map fl_odometer (filter (\<lambda>fl. in_scope q (fl_car_id fl)) (fuel_logs s))) \<and>
               service_breakdown stt =
                 breakdown (filter (\<lambda>r. in_scope q (sl_car_id r)) (service_logs s)))"
proof -
  have s': "s' = s\<lparr>cars := filter (\<lambda>c. c_id c \<noteq> i) (cars s)\<rparr>"
    using assms by (simp add: delete_car_def)
  have gone: "\<forall>c \<in> set (cars s'). int (c_id c) \<noteq> int i"
    by (simp add: s')
  have 1: "\<forall>q. \<exists>out. get_logs s' q = Inr (s', 200, Logs out) \<and> (\<forall>e \<in> set out. fl_car_id e \<noteq> int i)"
  proof
    fix q
    from get_logs_total [of s' q] obtain out where out: "get_logs s' q = Inr (s', 200, Logs out)"
      by blast
    have "\<forall>e \<in> set out. fl_car_id e \<noteq> int i"
    proof
      fix e assume "e \<in> set out"
      from listed_from_rows [OF out this] obtain r where "r \<in> set (select_logs s' q)"
        "fl_car_id e = fl_car_id r"
        by blast
      with select_logs_has_car [of r s' q] gone show "fl_car_id e \<noteq> int i" by auto
    qed
    with out show "\<exists>out. get_logs s' q = Inr (s', 200, Logs out) \<and> (\<forall>e \<in> set out. fl_car_id e \<noteq> int i)"
      by blast
  qed
  have 2: "\<forall>q cat. \<exists>rows. get_services s' q cat = Inr (s', 200, Services rows) \<and>
               (\<forall>r \<in> set rows. sl_car_id r \<noteq> int i)"
  proof (intro allI)
    fix q cat
    have "\<forall>r \<in> set (select_services s' q cat). sl_car_id r \<noteq> int i"
      using select_services_has_car [of _ s' q cat] gone by fastforce
    then show "\<exists>rows. get_services s' q cat = Inr (s', 200, Services rows) \<and>
               (\<forall>r \<in> set rows. sl_car_id r \<noteq> int i)"
      by (simp add: get_services_def)
  qed
  have 3: "get_logs s' (Some (int i)) = Inr (s', 200, Logs [])"
  proof -
    have "select_logs s' (Some (int i)) = []"
    proof (rule ccontr)
      assume "select_logs s' (Some (int i)) \<noteq> []"
      then obtain r where r: "r \<in> set (select_logs s' (Some (int i)))"
        by (cases "select_logs s' (Some (int i))") auto
      from select_logs_in_scope [OF r] have "fl_car_id r = int i" by (simp add: in_scope_def)
      with select_logs_has_car [OF r] gone show False by auto
    qed
    then show ?thesis by (simp add: get_logs_def trip_metrics_Nil)
  qed
  have 4: "\<forall>q. \<exists>stt. get_stats s' q = Inr (s', 200, Stats stt) \<and>
               get_stats s q = Inr (s, 200, Stats stt) \<and>
               total_entries stt = length (filter (\<lambda>fl. in_scope q (fl_car_id fl)) (fuel_logs s)) \<and>
               total_fuel stt =
                 sum_list (map fl_fuel_amount (filter (\<lambda>fl. in_scope q (fl_car_id fl)) (fuel_logs s))) \<and>
               total_spent stt =
                 sum_list (map fl_total_cost (filter (\<lambda>fl. in_scope q (fl_car_id fl)) (fuel_logs s))) \<and>
               avg_price_per_unit stt =
                 sql_avg (map fl_price_per_unit (filter (\<lambda>fl. in_scope q (fl_car_id fl)) (fuel_logs s))) \<and>
               first_odo stt =
                 sql_min (map fl_odometer (filter (\<lambda>fl. in_scope q (fl_car_id fl)) (fuel_logs s))) \<and>
               last_odo stt =
                 sql_max (map fl_odometer (filter (\<lambda>fl. in_scope q (fl_car_id fl)) (fuel_logs s))) \<and>
               service_breakdown stt =
                 breakdown (filter (\<lambda>r. in_scope q (sl_car_id r)) (service_logs s))"
  proof
    fix q
    have same: "get_stats_body s' q = get_stats_body s q"
      unfolding s' by (rule get_stats_body_cars)
    show "\<exists>stt. get_stats s' q = Inr (s', 200, Stats stt) \<and>
               get_stats s q = Inr (s, 200, Stats stt) \<and>
               total_entries stt = length (filter (\<lambda>fl. in_scope q (fl_car_id fl)) (fuel_logs s)) \<and>
               total_fuel stt =
                 sum_list (map fl_fuel_amount (filter (\<lambda>fl. in_scope q (fl_car_id fl)) (fuel_logs s))) \<and>
               total_spent stt =
                 sum_list (map fl_total_cost (filter (\<lambda>fl. in_scope q (fl_car_id fl)) (fuel_logs s))) \<and>
               avg_price_per_unit stt =
                 sql_avg (map fl_price_per_unit (filter (\<lambda>fl. in_scope q (fl_car_id fl)) (fuel_logs s))) \<and>
               first_odo stt =
                 sql_min (map fl_odometer (filter (\<lambda>fl. in_scope q (fl_car_id fl)) (fuel_logs s))) \<and>
               last_odo stt =
                 sql_max (map fl_odometer (filter (\<lambda>fl. in_scope q (fl_car_id fl)) (fuel_logs s))) \<and>
               service_breakdown stt =
                 breakdown (filter (\<lambda>r. in_scope q (sl_car_id r)) (service_logs s))"
      unfolding get_stats_def same unfolding get_stats_body_eq by simp
  qed
  from 1 2 3 4 show ?thesis by blast
qed

theorem orphaned_entries_witness:
  "delete_car example_store 2 =
     Inr (example_store\<lparr>cars := filter (\<lambda>c. c_id c \<noteq> 2) (cars example_store)\<rparr>, 200, Deleted 2) \<and>
   get_logs (example_store\<lparr>cars := filter (\<lambda>c. c_id c \<noteq> 2) (cars example_store)\<rparr>) (Some 2) =
     Inr (example_store\<lparr>cars := filter (\<lambda>c. c_id c \<noteq> 2) (cars example_store)\<rparr>, 200, Logs []) \<and>
   (\<exists>stt. get_stats (example_store\<lparr>cars := filter (\<lambda>c. c_id c \<noteq> 2) (cars example_store)\<rparr>) (Some 2) =
            Inr (example_store\<lparr>cars := filter (\<lambda>c. c_id c \<noteq> 2) (cars example_store)\<rparr>, 200, Stats stt) \<and>
          total_entries stt = 1 \<and> total_fuel stt = 50 \<and> total_spent stt = 1000 \<and>
          avg_price_per_unit stt = 20 \<and> first_odo stt = Some 5000 \<and> last_odo stt = Some 5000 \<and>
          service_breakdown stt = [(''car_wash'', 100, 1)])"
proof -
  let ?s' = "example_store\<lparr>cars := filter (\<lambda>c. c_id c \<noteq> 2) (cars example_store)\<rparr>"
  have h: "delete_car example_store 2 = Inr (?s', 200, Deleted 2)"
    by (simp add: delete_car_def)
  note t = orphaned_entries [OF h]
  have logs: "get_logs ?s' (Some 2) = Inr (?s', 200, Logs [])"
    using t [THEN conjunct2, THEN conjunct2, THEN conjunct1] by simp
  have f: "filter (\<lambda>fl. in_scope (Some 2) (fl_car_id fl)) (fuel_logs example_store) =
             [fuel_logs example_store ! 4]"
    "filter (\<lambda>r. in_scope (Some 2) (sl_car_id r)) (service_logs example_store) =
             [service_logs example_store ! 1]"
    by (simp_all add: example_store_def in_scope_def)
  have v: "length [fuel_logs example_store ! 4] = 1"
    "sum_list (map fl_fuel_amount [fuel_logs example_store ! 4]) = 50"
    "sum_list (map fl_total_cost [fuel_logs example_store ! 4]) = 1000"
    "sql_avg (map fl_price_per_unit [fuel_logs example_store ! 4]) = 20"
    "sql_min (map fl_odometer [fuel_logs example_store ! 4]) = Some 5000"
    "sql_max (map fl_odometer [fuel_logs example_store ! 4]) = Some 5000"
    "breakdown [service_logs example_store ! 1] = [(''car_wash'', 100, 1)]"
    by (simp_all add: example_store_def sql_avg_def sql_min_def sql_max_def breakdown_def
        List.map_filter_simps)
  from t [THEN conjunct2, THEN conjunct2, THEN conjunct2, THEN spec, of "Some 2"]
  have stats: "\<exists>stt. get_stats ?s' (Some 2) = Inr (?s', 200, Stats stt) \<and>
          total_entries stt = 1 \<and> total_fuel stt = 50 \<and> total_spent stt = 1000 \<and>
          avg_price_per_unit stt = 20 \<and> first_odo stt = Some 5000 \<and> last_odo stt = Some 5000 \<and>
          service_breakdown stt = [(''car_wash'', 100, 1)]"
    unfolding f v by blast
  from h logs stats show ?thesis by (intro conjI)
qed

end
